theory Spec2Isabelle
  imports Complex_Main
begin

section \<open>Data model (shared/schema.ts)\<close>

text \<open>
  Identifiers are the \<open>varchar\<close> primary keys of the schema; JavaScript numbers are
  modelled as exact reals, array lengths as naturals. The \<open>createdAt\<close> columns are left
  out: nothing modelled here reads them.
\<close>

type_synonym ident = string

record node =
  node_id :: ident
  node_mapId :: ident
  node_text :: string
  node_x :: real
  node_y :: real
  node_width :: int
  node_height :: int
  node_shape :: string
  node_color :: string
  node_textColor :: string

record connection =
  conn_id :: ident
  conn_mapId :: ident
  sourceNodeId :: ident
  targetNodeId :: ident

section \<open>Graph linearizer (ExportService.exportMarkdown, nodes section)\<close>

text \<open>
  The state the closure \<open>addNodeToMarkdown\<close> mutates: the \<open>visited\<close> set and the
  outline it appends to. Each appended line \<open>indent - **text** ...\<close> is kept as the pair
  of its level and its node; \<open>renderLine\<close> below gives the text of a line.
\<close>

record lin_state =
  visited :: "ident set"
  markdown :: "(nat \<times> node) list"

definition nodeMap_of :: "node list \<Rightarrow> (ident \<rightharpoonup> node)" where
  \<comment> \<open>\<open>new Map(map.nodes.map(node => [node.id, node]))\<close>: a later entry replaces an earlier one\<close>
  "nodeMap_of ns = fold (\<lambda>n m. m(node_id n \<mapsto> n)) ns Map.empty"

definition connectionMap_of :: "connection list \<Rightarrow> (ident \<rightharpoonup> ident list)" where
  \<comment> \<open>parent -> children, each \<open>push\<close> appends at the end\<close>
  "connectionMap_of cs =
     fold (\<lambda>c m. m(sourceNodeId c \<mapsto>
                     (case m (sourceNodeId c) of None \<Rightarrow> [] | Some ch \<Rightarrow> ch) @ [targetNodeId c]))
          cs Map.empty"

definition hasIncoming :: "connection list \<Rightarrow> ident set" where
  "hasIncoming cs = set (map targetNodeId cs)"

definition rootNodes :: "node list \<Rightarrow> connection list \<Rightarrow> node list" where
  "rootNodes ns cs = filter (\<lambda>n. node_id n \<notin> hasIncoming cs) ns"

function addNodeToMarkdown ::
    "node list \<Rightarrow> connection list \<Rightarrow> ident \<Rightarrow> nat \<Rightarrow> lin_state \<Rightarrow> lin_state"
  and forEachChild ::
    "node list \<Rightarrow> connection list \<Rightarrow> ident list \<Rightarrow> nat \<Rightarrow> lin_state \<Rightarrow> lin_state"
where
  "addNodeToMarkdown ns cs nodeId level st =
     (if nodeId \<in> visited st then st
      else
        (case nodeMap_of ns nodeId of
           None \<Rightarrow> st\<lparr>visited := insert nodeId (visited st)\<rparr>
         | Some n \<Rightarrow>
             forEachChild ns cs
               (case connectionMap_of cs nodeId of None \<Rightarrow> [] | Some ch \<Rightarrow> ch)
               (level + 1)
               (st\<lparr>visited := insert nodeId (visited st),
                   markdown := markdown st @ [(level, n)]\<rparr>)))"
| "forEachChild ns cs [] level st = st"
| "forEachChild ns cs (childId # rest) level st =
     forEachChild ns cs rest level (addNodeToMarkdown ns cs childId level st)"
  by pat_completeness auto

text \<open>
  Termination: a call that recurses marks a node of the map as visited, so the number of
  unvisited nodes of the map decreases; the nested call in \<open>forEachChild\<close> never
  removes an id from \<open>visited\<close>.
\<close>

lemma nodeMap_of_fold_dom:
  "dom (fold (\<lambda>n m. m(node_id n \<mapsto> n)) ns m0) = node_id ` set ns \<union> dom m0"
  by (induction ns arbitrary: m0) auto

lemma nodeMap_of_dom: "dom (nodeMap_of ns) = node_id ` set ns"
  by (simp add: nodeMap_of_def nodeMap_of_fold_dom)

lemma visited_mono_dom:
  "addNodeToMarkdown_forEachChild_dom (Inl (ns, cs, nodeId, level, st)) \<Longrightarrow>
     visited st \<subseteq> visited (addNodeToMarkdown ns cs nodeId level st)"
  "addNodeToMarkdown_forEachChild_dom (Inr (ns, cs, children, level, st)) \<Longrightarrow>
     visited st \<subseteq> visited (forEachChild ns cs children level st)"
proof (induction ns cs nodeId level st and ns cs children level st
       rule: addNodeToMarkdown_forEachChild.pinduct)
  case (1 ns cs nodeId level st)
  then show ?case
    by (auto simp: addNodeToMarkdown.psimps split: option.splits)
next
  case (2 ns cs level st)
  then show ?case by (simp add: forEachChild.psimps)
next
  case (3 ns cs childId rest level st)
  then show ?case by (auto simp: forEachChild.psimps)
qed

lemma unvisited_card_less:
  assumes "k \<notin> V" and "k \<in> S" and "finite S"
  shows "card (S - insert k V) < card (S - V)"
  using assms by (intro psubset_card_mono) auto

lemma unvisited_card_le:
  assumes "V \<subseteq> V'" and "finite S"
  shows "card (S - V') \<le> card (S - V)"
  using assms by (intro card_mono) auto

termination addNodeToMarkdown
proof (relation "measures
    [\<lambda>a. case a of
        Inl (ns, cs, nodeId, level, st) \<Rightarrow> card (node_id ` set ns - visited st)
      | Inr (ns, cs, children, level, st) \<Rightarrow> card (node_id ` set ns - visited st),
     \<lambda>a. case a of
        Inl (ns, cs, nodeId, level, st) \<Rightarrow> 0
      | Inr (ns, cs, children, level, st) \<Rightarrow> Suc (length children)]", goal_cases)
  case 1
  then show ?case by simp
next
  case (2 ns cs nodeId level st x2)
  from 2(2) have "nodeId \<in> node_id ` set ns"
    using nodeMap_of_dom [of ns] by blast
  with 2(1) have "card (node_id ` set ns - insert nodeId (visited st))
                    < card (node_id ` set ns - visited st)"
    by (intro unvisited_card_less) auto
  then show ?case
    by simp
next
  case (3 ns cs childId rest level st)
  then show ?case by simp
next
  case (4 ns cs childId rest level st)
  have "card (node_id ` set ns - visited (addNodeToMarkdown ns cs childId level st))
          \<le> card (node_id ` set ns - visited st)"
    using visited_mono_dom(1) [OF 4] by (intro unvisited_card_le) auto
  then show ?case by auto
qed

declare addNodeToMarkdown.simps [simp del]

definition initial_state :: lin_state where
  "initial_state = \<lparr>visited = {}, markdown = []\<rparr>"

definition exportMarkdown_nodes :: "node list \<Rightarrow> connection list \<Rightarrow> (nat \<times> node) list" where
  \<comment> \<open>the outline of the "Nodes" section: roots first, then every node not yet visited\<close>
  "exportMarkdown_nodes ns cs =
     (if length ns = 0 then []
      else
        let st1 = (if length (rootNodes ns cs) > 0
                   then fold (\<lambda>n st. addNodeToMarkdown ns cs (node_id n) 0 st)
                          (rootNodes ns cs) initial_state
                   else initial_state);
            st2 = fold (\<lambda>n st. if node_id n \<notin> visited st
                                 then addNodeToMarkdown ns cs (node_id n) 0 st else st)
                    ns st1
        in markdown st2)"

fun join :: "string \<Rightarrow> string list \<Rightarrow> string" where
  "join sep [] = []"
| "join sep [x] = x"
| "join sep (x # y # ys) = x @ sep @ join sep (y # ys)"

definition renderLine :: "nat \<times> node \<Rightarrow> string" where
  \<comment> \<open>the text one call of \<open>addNodeToMarkdown\<close> appends for its node\<close>
  "renderLine e =
     (let level = fst e; n = snd e;
          indent = concat (replicate level ''  '');
          metadata = (if node_shape n \<noteq> ''rectangle'' then [''Shape: '' @ node_shape n] else [])
                   @ (if node_color n \<noteq> ''#3b82f6'' then [''Color: '' @ node_color n] else [])
      in indent @ ''- **'' @ node_text n @ ''**''
           @ (if length metadata > 0 then '' *('' @ join '', '' metadata @ '')*'' else [])
           @ [CHR 0x0A])"

definition find_node :: "node list \<Rightarrow> ident \<Rightarrow> node option" where
  \<comment> \<open>\<open>map.nodes.find(n => n.id === i)\<close>: the first match, or undefined\<close>
  "find_node ns i = find (\<lambda>n. node_id n = i) ns"

definition exportMarkdown_connections ::
    "node list \<Rightarrow> connection list \<Rightarrow> (node \<times> node) list" where
  \<comment> \<open>the lines of the "Connections" section, one per connection with both endpoints found\<close>
  "exportMarkdown_connections ns cs =
     concat (map (\<lambda>c. case (find_node ns (sourceNodeId c), find_node ns (targetNodeId c)) of
                          (Some s, Some t) \<Rightarrow> [(s, t)]
                        | _ \<Rightarrow> []) cs)"

text \<open>
  The connection lines drawn on the canvas (\<open>map.connections.map\<close> in the SVG layer of
  MindMapCanvas): a connection with a missing endpoint renders \<open>null\<close>, nothing.
\<close>

definition renderConnections :: "node list \<Rightarrow> connection list \<Rightarrow> (ident \<times> node \<times> node) list" where
  "renderConnections ns cs =
     concat (map (\<lambda>c. case (find_node ns (sourceNodeId c), find_node ns (targetNodeId c)) of
                          (Some s, Some t) \<Rightarrow> [(conn_id c, s, t)]
                        | _ \<Rightarrow> []) cs)"

text \<open>Facts about a run of the outline used by the proofs below.\<close>

definition emitted :: "lin_state \<Rightarrow> ident list" where
  "emitted st = map (\<lambda>e. node_id (snd e)) (markdown st)"

definition outline_inv :: "node list \<Rightarrow> lin_state \<Rightarrow> bool" where
  "outline_inv ns st \<longleftrightarrow>
     distinct (emitted st) \<and>
     set (emitted st) = visited st \<inter> node_id ` set ns \<and>
     (\<forall>e \<in> set (markdown st). nodeMap_of ns (node_id (snd e)) = Some (snd e))"

definition final_state :: "node list \<Rightarrow> connection list \<Rightarrow> lin_state" where
  "final_state ns cs =
     fold (\<lambda>n st. if node_id n \<notin> visited st
                     then addNodeToMarkdown ns cs (node_id n) 0 st else st)
       ns
       (if length (rootNodes ns cs) > 0
        then fold (\<lambda>n st. addNodeToMarkdown ns cs (node_id n) 0 st) (rootNodes ns cs) initial_state
        else initial_state)"

text \<open>Sample rows: a node with the column defaults of the schema, and a connection.\<close>

definition sample_node :: "ident \<Rightarrow> node" where
  "sample_node i =
     \<lparr>node_id = i, node_mapId = ''m1'', node_text = i, node_x = 0, node_y = 0,
      node_width = 120, node_height = 60, node_shape = ''rectangle'',
      node_color = ''#3b82f6'', node_textColor = ''#ffffff''\<rparr>"

definition sample_connection :: "ident \<Rightarrow> ident \<Rightarrow> connection" where
  "sample_connection a b =
     \<lparr>conn_id = a @ ''-'' @ b, conn_mapId = ''m1'', sourceNodeId = a, targetNodeId = b\<rparr>"

section \<open>Canvas session (MindMapCanvas and the zoom state of HomePage)\<close>

record point =
  pt_x :: real
  pt_y :: real

record mind_map =
  map_id :: ident
  map_title :: string
  map_nodes :: "node list"
  map_connections :: "connection list"

record insert_node =
  new_mapId :: ident
  new_text :: string
  new_x :: real
  new_y :: real
  new_width :: int
  new_height :: int
  new_shape :: string
  new_color :: string
  new_textColor :: string

text \<open>
  What the three mutations send to the persistence collaborator: each \<open>mutate\<close> call is
  one request, logged in order.
\<close>

datatype request =
    CreateNode insert_node
  | UpdateNode ident real real
  | CreateConnection ident ident ident

text \<open>
  The state of a canvas session: the \<open>useState\<close> cells of MindMapCanvas, the two cells of
  HomePage it reads and writes through its props (\<open>selectedNodeId\<close> by \<open>onSelectNode\<close>,
  \<open>zoomLevel\<close> by \<open>onZoomChange\<close>), and the log of requests. The cells
  \<open>isDragging\<close> and \<open>dragOffset\<close> of MindMapCanvas are never read or written and are
  left out.
\<close>

record canvas =
  connectionStartNode :: "ident option"
  panOffset :: point
  isPanning :: bool
  panStart :: point
  selectedNodeId :: "ident option"
  zoomLevel :: real
  requests :: "request list"

record pointer_event =
  button :: int
  shiftKey :: bool
  ctrlKey :: bool
  metaKey :: bool
  pointerType :: string
  clientX :: real
  clientY :: real

record rect =
  rect_width :: real
  rect_height :: real

definition initial_canvas :: canvas where
  "initial_canvas =
     \<lparr>connectionStartNode = None, panOffset = \<lparr>pt_x = 0, pt_y = 0\<rparr>, isPanning = False,
      panStart = \<lparr>pt_x = 0, pt_y = 0\<rparr>, selectedNodeId = None, zoomLevel = 1, requests = []\<rparr>"

subsection \<open>Viewport transform\<close>

definition toLogical :: "canvas \<Rightarrow> point \<Rightarrow> point" where
  \<comment> \<open>handleNodeMove: \<open>(x - panOffset.x) / zoomLevel\<close>, \<open>(y - panOffset.y) / zoomLevel\<close>\<close>
  "toLogical s q =
     \<lparr>pt_x = (pt_x q - pt_x (panOffset s)) / zoomLevel s,
      pt_y = (pt_y q - pt_y (panOffset s)) / zoomLevel s\<rparr>"

definition toScreen :: "canvas \<Rightarrow> point \<Rightarrow> point" where
  \<comment> \<open>the nodes container: \<open>translate(panOffset.x, panOffset.y) scale(zoomLevel)\<close>, origin \<open>0 0\<close>\<close>
  "toScreen s p =
     \<lparr>pt_x = pt_x p * zoomLevel s + pt_x (panOffset s),
      pt_y = pt_y p * zoomLevel s + pt_y (panOffset s)\<rparr>"

subsection \<open>Zoom\<close>

definition handleZoomIn :: "canvas \<Rightarrow> canvas" where
  "handleZoomIn s = s\<lparr>zoomLevel := min (zoomLevel s * 1.2) 3\<rparr>"

definition handleZoomOut :: "canvas \<Rightarrow> canvas" where
  "handleZoomOut s = s\<lparr>zoomLevel := max (zoomLevel s / 1.2) 0.1\<rparr>"

definition newZoom :: "real \<Rightarrow> real \<Rightarrow> real" where
  \<comment> \<open>\<open>Math.max(0.1, Math.min(3, zoomLevel * delta))\<close>\<close>
  "newZoom zoom delta = max 0.1 (min 3 (zoom * delta))"

definition handleWheel :: "bool \<Rightarrow> real \<Rightarrow> canvas \<Rightarrow> canvas" where
  \<comment> \<open>first argument: whether the prop \<open>onZoomChange\<close> is given; second: \<open>e.deltaY\<close>\<close>
  "handleWheel onZoomChange deltaY s =
     (if \<not> onZoomChange then s
      else s\<lparr>zoomLevel := newZoom (zoomLevel s) (if deltaY > 0 then 0.9 else 1.1)\<rparr>)"

datatype zoom_op = Wheel real | ZoomIn | ZoomOut

fun zoom_step :: "zoom_op \<Rightarrow> canvas \<Rightarrow> canvas" where
  "zoom_step (Wheel deltaY) s = handleWheel True deltaY s"
| "zoom_step ZoomIn s = handleZoomIn s"
| "zoom_step ZoomOut s = handleZoomOut s"

subsection \<open>Selection, connection and node creation\<close>

definition handleCanvasClick :: "bool \<Rightarrow> canvas \<Rightarrow> canvas" where
  \<comment> \<open>argument: \<open>e.target === e.currentTarget\<close>, the click landed on the canvas itself\<close>
  "handleCanvasClick onCanvas s = (if onCanvas then s\<lparr>selectedNodeId := None\<rparr> else s)"

definition handleNodeClick :: "mind_map option \<Rightarrow> ident \<Rightarrow> bool \<Rightarrow> canvas \<Rightarrow> canvas" where
  "handleNodeClick m nodeId isCtrlKey s =
     (case (isCtrlKey, m) of
        (True, Some mp) \<Rightarrow>
          (case connectionStartNode s of
             None \<Rightarrow> s\<lparr>connectionStartNode := Some nodeId\<rparr>
           | Some start \<Rightarrow>
               if start = nodeId then s\<lparr>connectionStartNode := None\<rparr>
               else s\<lparr>requests := requests s @ [CreateConnection (map_id mp) start nodeId]\<rparr>)
      | _ \<Rightarrow> s\<lparr>selectedNodeId := Some nodeId, connectionStartNode := None\<rparr>)"

definition createConnection_onSuccess :: "canvas \<Rightarrow> canvas" where
  "createConnection_onSuccess s = s\<lparr>connectionStartNode := None\<rparr>"

definition handleAddNode :: "mind_map option \<Rightarrow> rect option \<Rightarrow> canvas \<Rightarrow> canvas" where
  \<comment> \<open>second argument: \<open>canvasRef.current?.getBoundingClientRect()\<close>\<close>
  "handleAddNode m r s =
     (case m of
        None \<Rightarrow> s
      | Some mp \<Rightarrow>
          (case r of
             None \<Rightarrow> s
           | Some rc \<Rightarrow>
               let centerX = rect_width rc / 2;
                   centerY = rect_height rc / 2;
                   x0 = (centerX - pt_x (panOffset s)) / zoomLevel s - 60;
                   y0 = (centerY - pt_y (panOffset s)) / zoomLevel s - 30;
                   nodeCount = length (map_nodes mp);
                   x1 = x0 + (real (nodeCount mod 3) * 160 - 160);
                   y1 = y0 + (real (nodeCount div 3) * 120 - 60);
                   x = max 20 x1;
                   y = max 20 y1
               in s\<lparr>requests := requests s @
                     [CreateNode \<lparr>new_mapId = map_id mp, new_text = ''New Node'', new_x = x, new_y = y,
                                  new_width = 120, new_height = 60, new_shape = ''rectangle'',
                                  new_color = ''#3b82f6'', new_textColor = ''#ffffff''\<rparr>]\<rparr>))"

definition handleNodeMove :: "ident \<Rightarrow> real \<Rightarrow> real \<Rightarrow> canvas \<Rightarrow> canvas" where
  "handleNodeMove nodeId x y s =
     (let l = toLogical s \<lparr>pt_x = x, pt_y = y\<rparr>
      in s\<lparr>requests := requests s @ [UpdateNode nodeId (pt_x l) (pt_y l)]\<rparr>)"

subsection \<open>Panning\<close>

definition handlePanStart :: "pointer_event \<Rightarrow> canvas \<Rightarrow> canvas" where
  "handlePanStart e s =
     (if button e = 1 \<or> (button e = 0 \<and> shiftKey e)
      then s\<lparr>isPanning := True,
             panStart := \<lparr>pt_x = clientX e - pt_x (panOffset s), pt_y = clientY e - pt_y (panOffset s)\<rparr>\<rparr>
      else if pointerType e = ''touch''
      then s\<lparr>panStart := \<lparr>pt_x = clientX e - pt_x (panOffset s), pt_y = clientY e - pt_y (panOffset s)\<rparr>\<rparr>
      else s)"

definition moveDistance :: "pointer_event \<Rightarrow> canvas \<Rightarrow> real" where
  "moveDistance e s =
     \<bar>clientX e - (pt_x (panStart s) + pt_x (panOffset s))\<bar>
       + \<bar>clientY e - (pt_y (panStart s) + pt_y (panOffset s))\<bar>"

definition handlePanMove :: "pointer_event \<Rightarrow> canvas \<Rightarrow> canvas" where
  \<comment> \<open>\<open>if (!isPanning) return\<close> reads the value of this render, before \<open>setIsPanning(true)\<close>\<close>
  "handlePanMove e s =
     (let s1 = (if \<not> isPanning s \<and> pointerType e = ''touch'' \<and> moveDistance e s > 10
                then s\<lparr>isPanning := True\<rparr> else s)
      in if \<not> isPanning s then s1
         else s1\<lparr>panOffset := \<lparr>pt_x = clientX e - pt_x (panStart s),
                                pt_y = clientY e - pt_y (panStart s)\<rparr>\<rparr>)"

definition handlePanEnd :: "canvas \<Rightarrow> canvas" where
  "handlePanEnd s = s\<lparr>isPanning := False\<rparr>"

text \<open>
  The events a canvas session receives. The canvas element listens to \<open>pointerdown\<close>
  (\<open>handlePanStart\<close>) and \<open>click\<close> (\<open>handleCanvasClick\<close>); the effect attaches
  \<open>handlePanMove\<close> and \<open>handlePanEnd\<close> to the document only while \<open>isPanning\<close> holds,
  so a document \<open>pointermove\<close> or \<open>pointerup\<close> reaches them only then.
\<close>

datatype canvas_event =
    PointerDown pointer_event
  | PointerMove pointer_event
  | PointerUp
  | Click bool

fun canvas_step :: "canvas_event \<Rightarrow> canvas \<Rightarrow> canvas" where
  "canvas_step (PointerDown e) s = handlePanStart e s"
| "canvas_step (PointerMove e) s = (if isPanning s then handlePanMove e s else s)"
| "canvas_step PointerUp s = (if isPanning s then handlePanEnd s else s)"
| "canvas_step (Click onCanvas) s = handleCanvasClick onCanvas s"

definition touch_at :: "real \<Rightarrow> real \<Rightarrow> pointer_event" where
  "touch_at x y =
     \<lparr>button = 0, shiftKey = False, ctrlKey = False, metaKey = False,
      pointerType = ''touch'', clientX = x, clientY = y\<rparr>"

section \<open>Node drag session (NodeComponent)\<close>

text \<open>
  The component calls its props \<open>onSelect\<close> and \<open>onMove\<close>; the calls are logged in order.
  \<open>visual\<close> is the \<open>left\<close>/\<open>top\<close> style that \<open>handlePointerMove\<close> writes on the element
  (the element is mounted, \<open>nodeRef.current\<close> is set). Events are handled one at a time,
  each after the render and the effects that follow the previous one, so a handler sees the
  state the previous handler left.
\<close>

datatype callback = OnSelect bool | OnMove ident real real

record node_component =
  isDragging :: bool
  dragStart :: point
  visual :: point
  calls :: "callback list"

definition mount :: "node \<Rightarrow> node_component" where
  "mount n =
     \<lparr>isDragging = False, dragStart = \<lparr>pt_x = 0, pt_y = 0\<rparr>,
      visual = \<lparr>pt_x = node_x n, pt_y = node_y n\<rparr>, calls = []\<rparr>"

definition handlePointerDown :: "node \<Rightarrow> pointer_event \<Rightarrow> node_component \<Rightarrow> node_component" where
  "handlePointerDown n e c =
     (if ctrlKey e \<or> metaKey e then c\<lparr>calls := calls c @ [OnSelect True]\<rparr>
      else c\<lparr>isDragging := True,
             dragStart := \<lparr>pt_x = clientX e - node_x n, pt_y = clientY e - node_y n\<rparr>,
             calls := calls c @ [OnSelect False]\<rparr>)"

definition handlePointerMove :: "pointer_event \<Rightarrow> node_component \<Rightarrow> node_component" where
  "handlePointerMove e c =
     (if \<not> isDragging c then c
      else c\<lparr>visual := \<lparr>pt_x = clientX e - pt_x (dragStart c),
                         pt_y = clientY e - pt_y (dragStart c)\<rparr>\<rparr>)"

definition handlePointerUp :: "node \<Rightarrow> pointer_event \<Rightarrow> node_component \<Rightarrow> node_component" where
  "handlePointerUp n e c =
     (if \<not> isDragging c then c
      else c\<lparr>isDragging := False,
             calls := calls c @ [OnMove (node_id n) (clientX e - pt_x (dragStart c))
                                                    (clientY e - pt_y (dragStart c))]\<rparr>)"

text \<open>
  The element listens to \<open>pointerdown\<close>; the effect attaches \<open>handlePointerMove\<close> and
  \<open>handlePointerUp\<close> to the document only while \<open>isDragging\<close> holds.
\<close>

datatype node_event =
    NodeDown pointer_event
  | DocMove pointer_event
  | DocUp pointer_event

fun node_step :: "node \<Rightarrow> node_event \<Rightarrow> node_component \<Rightarrow> node_component" where
  "node_step n (NodeDown e) c = handlePointerDown n e c"
| "node_step n (DocMove e) c = (if isDragging c then handlePointerMove e c else c)"
| "node_step n (DocUp e) c = (if isDragging c then handlePointerUp n e c else c)"

definition run_node :: "node \<Rightarrow> node_event list \<Rightarrow> node_component \<Rightarrow> node_component" where
  "run_node n evs c = fold (node_step n) evs c"

fun dispatch :: "mind_map option \<Rightarrow> node \<Rightarrow> callback \<Rightarrow> canvas \<Rightarrow> canvas" where
  \<comment> \<open>the props MindMapCanvas gives each NodeComponent\<close>
  "dispatch m n (OnSelect isCtrlKey) s = handleNodeClick m (node_id n) isCtrlKey s"
| "dispatch m n (OnMove nodeId x y) s = handleNodeMove nodeId x y s"

definition mouse_at :: "real \<Rightarrow> real \<Rightarrow> pointer_event" where
  "mouse_at x y =
     \<lparr>button = 0, shiftKey = False, ctrlKey = False, metaKey = False,
      pointerType = ''mouse'', clientX = x, clientY = y\<rparr>"

section \<open>Persistence (DatabaseStorage and the DELETE routes)\<close>

text \<open>
  The two tables the delete operations touch. \<open>db.delete(t).where(eq(t.id, id))\<close> removes
  the rows with that id and reports their number as \<open>rowCount\<close>; the foreign keys of
  \<open>connections\<close> on \<open>nodes.id\<close> are declared \<open>onDelete: "cascade"\<close>, so the connections
  of a removed node row go with it.
\<close>

record store =
  nodes_table :: "node list"
  connections_table :: "connection list"

definition deleteNode :: "ident \<Rightarrow> store \<Rightarrow> store \<times> bool" where
  "deleteNode i db =
     (let removed = filter (\<lambda>n. node_id n = i) (nodes_table db);
          rowCount = length removed
      in (\<lparr>nodes_table = filter (\<lambda>n. node_id n \<noteq> i) (nodes_table db),
           connections_table =
             filter (\<lambda>c. sourceNodeId c \<notin> node_id ` set removed \<and>
                          targetNodeId c \<notin> node_id ` set removed) (connections_table db)\<rparr>,
          rowCount > 0))"

definition deleteConnection :: "ident \<Rightarrow> store \<Rightarrow> store \<times> bool" where
  "deleteConnection i db =
     (let rowCount = length (filter (\<lambda>c. conn_id c = i) (connections_table db))
      in (db\<lparr>connections_table := filter (\<lambda>c. conn_id c \<noteq> i) (connections_table db)\<rparr>,
          rowCount > 0))"

datatype response = SendStatus nat | Json nat string

definition delete_node_route :: "bool \<Rightarrow> ident \<Rightarrow> store \<Rightarrow> store \<times> response" where
  \<comment> \<open>first argument: \<open>req.isAuthenticated() && req.user\<close>, checked by \<open>requireAuth\<close>\<close>
  "delete_node_route authenticated i db =
     (if \<not> authenticated then (db, Json 401 ''Authentication required'')
      else let (db', success) = deleteNode i db
           in if \<not> success then (db', Json 404 ''Node not found'')
              else (db', SendStatus 204))"

definition delete_connection_route :: "bool \<Rightarrow> ident \<Rightarrow> store \<Rightarrow> store \<times> response" where
  "delete_connection_route authenticated i db =
     (if \<not> authenticated then (db, Json 401 ''Authentication required'')
      else let (db', success) = deleteConnection i db
           in if \<not> success then (db', Json 404 ''Connection not found'')
              else (db', SendStatus 204))"

section \<open>Notions used to state the properties\<close>

definition logicalCenter :: "rect \<Rightarrow> canvas \<Rightarrow> point" where
  \<comment> \<open>the centre of the visible canvas, in logical coordinates\<close>
  "logicalCenter rc s = toLogical s \<lparr>pt_x = rect_width rc / 2, pt_y = rect_height rc / 2\<rparr>"

definition zoom_in_range :: "canvas \<Rightarrow> bool" where
  "zoom_in_range s \<longleftrightarrow> 0.1 \<le> zoomLevel s \<and> zoomLevel s \<le> 3"

definition drag_session :: "pointer_event \<Rightarrow> pointer_event list \<Rightarrow> pointer_event \<Rightarrow> node_event list" where
  \<comment> \<open>pointer-down on the node, the moves, the pointer-up\<close>
  "drag_session down moves up = NodeDown down # map DocMove moves @ [DocUp up]"

definition commit :: "mind_map option \<Rightarrow> node \<Rightarrow> callback list \<Rightarrow> canvas \<Rightarrow> canvas" where
  \<comment> \<open>the canvas handles the calls of a node component in order\<close>
  "commit m n cbs s = fold (dispatch m n) cbs s"

definition keep_targets :: "node list \<Rightarrow> connection list \<Rightarrow> connection list" where
  \<comment> \<open>the connections whose target is a node of the map\<close>
  "keep_targets ns cs = filter (\<lambda>c. targetNodeId c \<in> node_id ` set ns) cs"

definition children_of :: "connection list \<Rightarrow> ident \<Rightarrow> ident list" where
  \<comment> \<open>\<open>connectionMap.get(nodeId) || []\<close>\<close>
  "children_of cs k = (case connectionMap_of cs k of None \<Rightarrow> [] | Some ch \<Rightarrow> ch)"

definition same_outline :: "node list \<Rightarrow> lin_state \<Rightarrow> lin_state \<Rightarrow> bool" where
  \<comment> \<open>two runs agree on the outline and on which nodes of the map are visited\<close>
  "same_outline ns st st' \<longleftrightarrow>
     markdown st = markdown st' \<and>
     visited st \<inter> node_id ` set ns = visited st' \<inter> node_id ` set ns"

text \<open>
  Which element a click on the empty surface hits, read off the class names in the markup of
  MindMapCanvas. Inside the canvas element lie the SVG layer (\<open>pointer-events-none\<close>, never a
  target), the nodes container (\<open>absolute inset-0\<close>: its box is the box of the canvas, moved by
  \<open>translate(panOffset) scale(zoomLevel)\<close> with origin \<open>0 0\<close>) and, when there is no map or
  the map has no node, an overlay (\<open>absolute inset-0\<close>) over the whole canvas. A click away
  from the nodes, the add button and the banner has the canvas itself as its target only where
  neither the overlay nor the nodes container lies under the pointer. The point is relative to
  the corner of the canvas.
\<close>

definition nodesContainerCovers :: "rect \<Rightarrow> canvas \<Rightarrow> point \<Rightarrow> bool" where
  "nodesContainerCovers rc s q \<longleftrightarrow>
     pt_x (panOffset s) \<le> pt_x q \<and> pt_x q \<le> pt_x (panOffset s) + rect_width rc * zoomLevel s \<and>
     pt_y (panOffset s) \<le> pt_y q \<and> pt_y q \<le> pt_y (panOffset s) + rect_height rc * zoomLevel s"

definition overlayShown :: "mind_map option \<Rightarrow> bool" where
  \<comment> \<open>\<open>!map\<close>, or \<open>map && map.nodes.length === 0\<close>\<close>
  "overlayShown m = (case m of None \<Rightarrow> True | Some mp \<Rightarrow> length (map_nodes mp) = 0)"

definition emptySurfaceClick :: "mind_map option \<Rightarrow> rect \<Rightarrow> canvas \<Rightarrow> point \<Rightarrow> canvas_event" where
  \<comment> \<open>the click event the canvas receives; its argument is \<open>e.target === e.currentTarget\<close>\<close>
  "emptySurfaceClick m rc s q = Click (\<not> overlayShown m \<and> \<not> nodesContainerCovers rc s q)"

definition dragged_node :: node where
  \<comment> \<open>the sample node \<open>A\<close>, placed at (100, 100)\<close>
  "dragged_node = (sample_node ''A'')\<lparr>node_x := 100, node_y := 100\<rparr>"

definition dragged_map :: mind_map where
  "dragged_map =
     \<lparr>map_id = ''m1'', map_title = ''Plan'', map_nodes = [dragged_node], map_connections = []\<rparr>"

definition sample_store :: store where
  "sample_store =
     \<lparr>nodes_table = [sample_node ''A'', sample_node ''B''],
      connections_table = [sample_connection ''A'' ''B'']\<rparr>"

definition three_nodes :: mind_map where
  "three_nodes =
     \<lparr>map_id = ''m1'', map_title = ''Plan'',
      map_nodes = [sample_node ''A'', sample_node ''B'', sample_node ''C''],
      map_connections = []\<rparr>"

section \<open>The outline emits every node once\<close>

lemma nodeMap_of_fold_id:
  "fold (\<lambda>n m. m(node_id n \<mapsto> n)) ns m0 k = Some n \<Longrightarrow>
     m0 k = Some n \<or> (node_id n = k \<and> n \<in> set ns)"
proof (induction ns arbitrary: m0)
  case Nil
  then show ?case by simp
next
  case (Cons a ns)
  from Cons.prems have "fold (\<lambda>n m. m(node_id n \<mapsto> n)) ns (m0(node_id a \<mapsto> a)) k = Some n"
    by (simp del: fun_upd_apply)
  from Cons.IH [OF this] show ?case
    by (auto split: if_splits)
qed

lemma nodeMap_of_SomeD: "nodeMap_of ns k = Some n \<Longrightarrow> node_id n = k \<and> n \<in> set ns"
  unfolding nodeMap_of_def by (drule nodeMap_of_fold_id) simp

lemma outline_inv_step:
  "(outline_inv ns st \<longrightarrow>
      outline_inv ns (addNodeToMarkdown ns cs nodeId level st) \<and>
      visited st \<subseteq> visited (addNodeToMarkdown ns cs nodeId level st) \<and>
      nodeId \<in> visited (addNodeToMarkdown ns cs nodeId level st))"
  "(outline_inv ns st \<longrightarrow>
      outline_inv ns (forEachChild ns cs children level st) \<and>
      visited st \<subseteq> visited (forEachChild ns cs children level st))"
proof (induction ns cs nodeId level st and ns cs children level st
       rule: addNodeToMarkdown_forEachChild.induct)
  case (1 ns cs nodeId level st)
  show ?case
  proof (intro impI)
    assume inv: "outline_inv ns st"
    show "outline_inv ns (addNodeToMarkdown ns cs nodeId level st) \<and>
      visited st \<subseteq> visited (addNodeToMarkdown ns cs nodeId level st) \<and>
      nodeId \<in> visited (addNodeToMarkdown ns cs nodeId level st)"
    proof (cases "nodeId \<in> visited st")
      case True
      with inv show ?thesis by (simp add: addNodeToMarkdown.simps)
    next
      case unv: False
      show ?thesis
      proof (cases "nodeMap_of ns nodeId")
        case None
        then have "nodeId \<notin> node_id ` set ns"
          using nodeMap_of_dom [of ns] by auto
        with inv unv None show ?thesis
          by (auto simp: addNodeToMarkdown.simps outline_inv_def emitted_def)
      next
        case (Some n)
        let ?st' = "st\<lparr>visited := insert nodeId (visited st), markdown := markdown st @ [(level, n)]\<rparr>"
        from Some have n: "node_id n = nodeId" "n \<in> set ns"
          using nodeMap_of_SomeD by blast+
        have "outline_inv ns ?st'"
          using inv unv Some n by (auto simp: outline_inv_def emitted_def)
        with "1.IH" [OF unv Some] unv Some show ?thesis
          by (auto simp: addNodeToMarkdown.simps)
      qed
    qed
  qed
next
  case (2 ns cs level st)
  then show ?case by simp
next
  case (3 ns cs childId rest level st)
  then show ?case by auto
qed


lemma outline_inv_initial: "outline_inv ns initial_state"
  by (simp add: outline_inv_def emitted_def initial_state_def)

lemma outline_inv_roots:
  "outline_inv ns st \<Longrightarrow>
     outline_inv ns (fold (\<lambda>n st. addNodeToMarkdown ns cs (node_id n) 0 st) xs st)"
  by (induction xs arbitrary: st) (simp_all add: outline_inv_step(1))

lemma outline_inv_unvisited:
  "outline_inv ns st \<Longrightarrow>
     outline_inv ns (fold (\<lambda>n st. if node_id n \<notin> visited st
                                  then addNodeToMarkdown ns cs (node_id n) 0 st else st) xs st) \<and>
     visited st \<union> node_id ` set xs
       \<subseteq> visited (fold (\<lambda>n st. if node_id n \<notin> visited st
                                  then addNodeToMarkdown ns cs (node_id n) 0 st else st) xs st)"
proof (induction xs arbitrary: st)
  case Nil
  then show ?case by simp
next
  case (Cons x xs)
  let ?st' = "if node_id x \<notin> visited st then addNodeToMarkdown ns cs (node_id x) 0 st else st"
  have st': "outline_inv ns ?st'" "visited st \<subseteq> visited ?st'" "node_id x \<in> visited ?st'"
    using Cons.prems outline_inv_step(1) [of ns st cs "node_id x" 0] by auto
  from Cons.IH [OF st'(1)] st'(2,3) show ?case
    by auto
qed

lemma exportMarkdown_nodes_final:
  "exportMarkdown_nodes ns cs = markdown (final_state ns cs)"
  by (cases ns) (simp_all add: exportMarkdown_nodes_def final_state_def rootNodes_def initial_state_def Let_def)

lemma final_state_inv:
  "outline_inv ns (final_state ns cs)" "node_id ` set ns \<subseteq> visited (final_state ns cs)"
proof -
  let ?st1 = "if length (rootNodes ns cs) > 0
        then fold (\<lambda>n st. addNodeToMarkdown ns cs (node_id n) 0 st) (rootNodes ns cs) initial_state
        else initial_state"
  have "outline_inv ns ?st1"
    by (simp add: outline_inv_initial outline_inv_roots)
  from outline_inv_unvisited [OF this, of cs ns]
  show "outline_inv ns (final_state ns cs)" "node_id ` set ns \<subseteq> visited (final_state ns cs)"
    unfolding final_state_def by auto
qed

lemma emitted_ids:
  "distinct (map (\<lambda>e. node_id (snd e)) (exportMarkdown_nodes ns cs))"
  "set (map (\<lambda>e. node_id (snd e)) (exportMarkdown_nodes ns cs)) = node_id ` set ns"
  "e \<in> set (exportMarkdown_nodes ns cs) \<Longrightarrow> snd e \<in> set ns"
  using final_state_inv [of ns cs] nodeMap_of_SomeD
  unfolding exportMarkdown_nodes_final outline_inv_def emitted_def by auto


text \<open>
  C1. For a node list with pairwise distinct ids (the primary key of the \<open>nodes\<close> table) and
  any list of connections, cyclic or not, with endpoints inside or outside the node list, the
  outline has one entry for each node: the ids of its entries are pairwise distinct, its
  nodes are exactly the nodes of the map, and it has as many entries as the map has nodes.
\<close>

theorem exportMarkdown_nodes_each_once:
  assumes "distinct (map node_id ns)"
  shows "distinct (map (\<lambda>e. node_id (snd e)) (exportMarkdown_nodes ns cs)) \<and>
         set (map snd (exportMarkdown_nodes ns cs)) = set ns \<and>
         length (exportMarkdown_nodes ns cs) = length ns"
proof (intro conjI)
  let ?out = "exportMarkdown_nodes ns cs"
  show d: "distinct (map (\<lambda>e. node_id (snd e)) ?out)"
    by (rule emitted_ids(1))
  have ids: "set (map (\<lambda>e. node_id (snd e)) ?out) = set (map node_id ns)"
    using emitted_ids(2) [of ns cs] by simp
  have "length (map (\<lambda>e. node_id (snd e)) ?out) = length (map node_id ns)"
    using d assms ids by (metis distinct_card)
  then show "length ?out = length ns" by simp
  show "set (map snd ?out) = set ns"
  proof
    show "set (map snd ?out) \<subseteq> set ns"
      using emitted_ids(3) [of _ ns cs] by auto
    show "set ns \<subseteq> set (map snd ?out)"
    proof
      fix n assume n: "n \<in> set ns"
      then have "node_id n \<in> set (map (\<lambda>e. node_id (snd e)) ?out)"
        using ids by simp
      then obtain e where e: "e \<in> set ?out" "node_id (snd e) = node_id n"
        by auto
      with emitted_ids(3) [OF e(1)] n assms have "snd e = n"
        by (meson distinct_map inj_onD)
      with e(1) show "n \<in> set (map snd ?out)" by force
    qed
  qed
qed

text \<open>
  On the pure cycle \<open>A \<rightarrow> B\<close>, \<open>B \<rightarrow> C\<close>, \<open>C \<rightarrow> A\<close> no node is a root; the final pass starts
  at \<open>A\<close>, and the edge from \<open>C\<close> back to \<open>A\<close> finds \<open>A\<close> visited.
\<close>

theorem exportMarkdown_nodes_each_once_witness:
  "distinct (map node_id [sample_node ''A'', sample_node ''B'', sample_node ''C'']) \<and>
   distinct (map (\<lambda>e. node_id (snd e))
     (exportMarkdown_nodes [sample_node ''A'', sample_node ''B'', sample_node ''C'']
        [sample_connection ''A'' ''B'', sample_connection ''B'' ''C'', sample_connection ''C'' ''A''])) \<and>
   set (map snd
     (exportMarkdown_nodes [sample_node ''A'', sample_node ''B'', sample_node ''C'']
        [sample_connection ''A'' ''B'', sample_connection ''B'' ''C'', sample_connection ''C'' ''A'']))
     = set [sample_node ''A'', sample_node ''B'', sample_node ''C''] \<and>
   length
     (exportMarkdown_nodes [sample_node ''A'', sample_node ''B'', sample_node ''C'']
        [sample_connection ''A'' ''B'', sample_connection ''B'' ''C'', sample_connection ''C'' ''A''])
     = length [sample_node ''A'', sample_node ''B'', sample_node ''C'']"
proof -
  have d: "distinct (map node_id [sample_node ''A'', sample_node ''B'', sample_node ''C''])"
    by (simp add: sample_node_def)
  from exportMarkdown_nodes_each_once [OF d] d show ?thesis
    by blast
qed

lemma cycle_outline:
  "exportMarkdown_nodes [sample_node ''A'', sample_node ''B'', sample_node ''C'']
     [sample_connection ''A'' ''B'', sample_connection ''B'' ''C'', sample_connection ''C'' ''A'']
   = [(0, sample_node ''A''), (1, sample_node ''B''), (2, sample_node ''C'')]"
  by (simp add: exportMarkdown_nodes_def rootNodes_def hasIncoming_def initial_state_def
        nodeMap_of_def connectionMap_of_def addNodeToMarkdown.simps
        sample_node_def sample_connection_def)

section \<open>Children in the order of their connections\<close>

lemma three_element_lists:
  assumes "set ns = {A, B, C}" and "length ns = 3" and "A \<noteq> B" and "A \<noteq> C" and "B \<noteq> C"
  shows "ns \<in> {[A, B, C], [A, C, B], [B, A, C], [B, C, A], [C, A, B], [C, B, A]}"
proof -
  from assms(2) obtain x y z where ns: "ns = [x, y, z]"
    by (cases ns; cases "tl ns"; cases "tl (tl ns)") auto
  have "card (set ns) = length ns" using assms by simp
  then have "distinct ns"
    by (rule card_distinct)
  then have d: "x \<noteq> y" "x \<noteq> z" "y \<noteq> z"
    by (simp_all add: ns)
  have "x \<in> set ns" "y \<in> set ns" "z \<in> set ns"
    by (simp_all add: ns)
  then have mem: "x \<in> {A, B, C}" "y \<in> {A, B, C}" "z \<in> {A, B, C}"
    unfolding assms(1) .
  from mem d show ?thesis
    unfolding ns by auto
qed

lemma outline_two_children:
  assumes ids: "node_id A \<noteq> node_id B" "node_id A \<noteq> node_id C" "node_id B \<noteq> node_id C"
    and ns: "ns \<in> {[A, B, C], [A, C, B], [B, A, C], [B, C, A], [C, A, B], [C, B, A]}"
    and cs: "sourceNodeId c1 = node_id A" "targetNodeId c1 = node_id B"
        "sourceNodeId c2 = node_id A" "targetNodeId c2 = node_id C"
  shows "exportMarkdown_nodes ns [c1, c2] = [(0, A), (1, B), (1, C)]"
proof -
  note defs = exportMarkdown_nodes_def rootNodes_def hasIncoming_def initial_state_def
        nodeMap_of_def connectionMap_of_def addNodeToMarkdown.simps
  have "exportMarkdown_nodes [A, B, C] [c1, c2] = [(0, A), (1, B), (1, C)]"
    using ids cs ids [symmetric] by (simp add: defs)
  moreover have "exportMarkdown_nodes [A, C, B] [c1, c2] = [(0, A), (1, B), (1, C)]"
    using ids cs ids [symmetric] by (simp add: defs)
  moreover have "exportMarkdown_nodes [B, A, C] [c1, c2] = [(0, A), (1, B), (1, C)]"
    using ids cs ids [symmetric] by (simp add: defs)
  moreover have "exportMarkdown_nodes [B, C, A] [c1, c2] = [(0, A), (1, B), (1, C)]"
    using ids cs ids [symmetric] by (simp add: defs)
  moreover have "exportMarkdown_nodes [C, A, B] [c1, c2] = [(0, A), (1, B), (1, C)]"
    using ids cs ids [symmetric] by (simp add: defs)
  moreover have "exportMarkdown_nodes [C, B, A] [c1, c2] = [(0, A), (1, B), (1, C)]"
    using ids cs ids [symmetric] by (simp add: defs)
  ultimately show ?thesis
    using ns by blast
qed

text \<open>
  C9. Let the map have exactly the three nodes \<open>A\<close>, \<open>B\<close>, \<open>C\<close> (in any order, with different
  ids) and the connections \<open>A \<rightarrow> B\<close>, \<open>A \<rightarrow> C\<close> in that order. Then \<open>A\<close> is the only root and
  the outline is \<open>A\<close> at depth 0, then \<open>B\<close> at depth 1, then \<open>C\<close> at depth 1.
\<close>

theorem two_children_in_connection_order:
  assumes "node_id A \<noteq> node_id B" and "node_id A \<noteq> node_id C" and "node_id B \<noteq> node_id C"
    and "set ns = {A, B, C}" and "length ns = 3"
    and "map (\<lambda>c. (sourceNodeId c, targetNodeId c)) cs
           = [(node_id A, node_id B), (node_id A, node_id C)]"
  shows "exportMarkdown_nodes ns cs = [(0, A), (1, B), (1, C)]"
proof -
  from assms(6) obtain c1 c2 where cs: "cs = [c1, c2]"
    "sourceNodeId c1 = node_id A" "targetNodeId c1 = node_id B"
    "sourceNodeId c2 = node_id A" "targetNodeId c2 = node_id C"
    by auto
  have "A \<noteq> B" "A \<noteq> C" "B \<noteq> C"
    using assms(1-3) by auto
  from three_element_lists [OF assms(4,5) this]
  show ?thesis
    unfolding cs(1) by (intro outline_two_children assms(1-3) cs(2-5))
qed

theorem two_children_in_connection_order_witness:
  "node_id (sample_node ''A'') \<noteq> node_id (sample_node ''B'') \<and>
   node_id (sample_node ''A'') \<noteq> node_id (sample_node ''C'') \<and>
   node_id (sample_node ''B'') \<noteq> node_id (sample_node ''C'') \<and>
   set [sample_node ''C'', sample_node ''A'', sample_node ''B'']
     = {sample_node ''A'', sample_node ''B'', sample_node ''C''} \<and>
   length [sample_node ''C'', sample_node ''A'', sample_node ''B''] = 3 \<and>
   map (\<lambda>c. (sourceNodeId c, targetNodeId c)) [sample_connection ''A'' ''B'', sample_connection ''A'' ''C'']
     = [(node_id (sample_node ''A''), node_id (sample_node ''B'')),
        (node_id (sample_node ''A''), node_id (sample_node ''C''))] \<and>
   exportMarkdown_nodes [sample_node ''C'', sample_node ''A'', sample_node ''B'']
     [sample_connection ''A'' ''B'', sample_connection ''A'' ''C'']
     = [(0, sample_node ''A''), (1, sample_node ''B''), (1, sample_node ''C'')]"
proof -
  have ids: "node_id (sample_node ''A'') \<noteq> node_id (sample_node ''B'')"
    "node_id (sample_node ''A'') \<noteq> node_id (sample_node ''C'')"
    "node_id (sample_node ''B'') \<noteq> node_id (sample_node ''C'')"
    by (simp_all add: sample_node_def)
  have ns: "set [sample_node ''C'', sample_node ''A'', sample_node ''B'']
       = {sample_node ''A'', sample_node ''B'', sample_node ''C''}"
    "length [sample_node ''C'', sample_node ''A'', sample_node ''B''] = 3"
    by auto
  have cs: "map (\<lambda>c. (sourceNodeId c, targetNodeId c)) [sample_connection ''A'' ''B'', sample_connection ''A'' ''C'']
       = [(node_id (sample_node ''A''), node_id (sample_node ''B'')),
          (node_id (sample_node ''A''), node_id (sample_node ''C''))]"
    by (simp add: sample_node_def sample_connection_def)
  have out: "exportMarkdown_nodes [sample_node ''C'', sample_node ''A'', sample_node ''B'']
     [sample_connection ''A'' ''B'', sample_connection ''A'' ''C'']
     = [(0, sample_node ''A''), (1, sample_node ''B''), (1, sample_node ''C'')]"
    by (rule two_children_in_connection_order [OF ids ns cs])
  show ?thesis
    by (intro conjI) (rule ids ns cs out)+
qed

section \<open>Connections with a missing endpoint\<close>

lemma find_node_Some: "find_node ns i = Some n \<Longrightarrow> n \<in> set ns \<and> node_id n = i"
  by (auto simp: find_node_def find_Some_iff)

lemma find_node_None: "find_node ns i = None \<longleftrightarrow> i \<notin> node_id ` set ns"
  by (auto simp: find_node_def find_None_iff)

lemma find_node_member: "i \<in> node_id ` set ns \<longleftrightarrow> (\<exists>n. find_node ns i = Some n)"
  using find_node_None [of ns i] by auto

lemma renderConnections_filter:
  "renderConnections ns cs =
     renderConnections ns (filter (\<lambda>c. sourceNodeId c \<in> node_id ` set ns \<and> targetNodeId c \<in> node_id ` set ns) cs)"
  by (induction cs) (auto simp: renderConnections_def find_node_member split: option.splits)

lemma exportMarkdown_connections_filter:
  "exportMarkdown_connections ns cs =
     exportMarkdown_connections ns (filter (\<lambda>c. sourceNodeId c \<in> node_id ` set ns \<and> targetNodeId c \<in> node_id ` set ns) cs)"
  by (induction cs) (auto simp: exportMarkdown_connections_def find_node_member split: option.splits)

text \<open>
  In the outline a connection whose target is no node of the map has no effect: the run
  with all connections and the run without those connections emit the same entries.
\<close>

lemma connectionMap_of_fold:
  "(case fold (\<lambda>c m. m(sourceNodeId c \<mapsto>
                     (case m (sourceNodeId c) of None \<Rightarrow> [] | Some ch \<Rightarrow> ch) @ [targetNodeId c]))
          cs m0 k of None \<Rightarrow> [] | Some ch \<Rightarrow> ch)
   = (case m0 k of None \<Rightarrow> [] | Some ch \<Rightarrow> ch) @ map targetNodeId (filter (\<lambda>c. sourceNodeId c = k) cs)"
  by (induction cs arbitrary: m0) (auto split: option.splits)

lemma children_of_eq: "children_of cs k = map targetNodeId (filter (\<lambda>c. sourceNodeId c = k) cs)"
  unfolding children_of_def connectionMap_of_def
  using connectionMap_of_fold [of cs Map.empty k] by simp

lemma children_of_keep_targets:
  "children_of (keep_targets ns cs) k = filter (\<lambda>i. i \<in> node_id ` set ns) (children_of cs k)"
  by (simp add: children_of_eq keep_targets_def filter_map o_def conj_commute)

lemma dangling_target_step:
  "same_outline ns st st' \<longrightarrow>
     (if nodeId \<in> node_id ` set ns
      then same_outline ns (addNodeToMarkdown ns cs nodeId level st)
                           (addNodeToMarkdown ns (keep_targets ns cs) nodeId level st')
      else same_outline ns (addNodeToMarkdown ns cs nodeId level st) st')"
  "same_outline ns st st' \<longrightarrow>
     same_outline ns (forEachChild ns cs children level st)
       (forEachChild ns (keep_targets ns cs) (filter (\<lambda>i. i \<in> node_id ` set ns) children) level st')"
proof (induction ns cs nodeId level st and ns cs children level st arbitrary: st' and st'
       rule: addNodeToMarkdown_forEachChild.induct)
  case (1 ns cs nodeId level st)
  show ?case
  proof (intro impI)
    assume R: "same_outline ns st st'"
    show "if nodeId \<in> node_id ` set ns
      then same_outline ns (addNodeToMarkdown ns cs nodeId level st)
                           (addNodeToMarkdown ns (keep_targets ns cs) nodeId level st')
      else same_outline ns (addNodeToMarkdown ns cs nodeId level st) st'"
    proof (cases "nodeId \<in> node_id ` set ns")
      case False
      then have "nodeMap_of ns nodeId = None"
        using nodeMap_of_dom [of ns] by blast
      with False R show ?thesis
        by (auto simp: addNodeToMarkdown.simps same_outline_def)
    next
      case mem: True
      then obtain n where n: "nodeMap_of ns nodeId = Some n"
        using nodeMap_of_dom [of ns] by blast
      show ?thesis
      proof (cases "nodeId \<in> visited st")
        case True
        with mem R have "nodeId \<in> visited st'"
          by (auto simp: same_outline_def)
        with True mem R show ?thesis
          by (simp add: addNodeToMarkdown.simps)
      next
        case unv: False
        with mem R have unv': "nodeId \<notin> visited st'"
          by (auto simp: same_outline_def)
        let ?s1 = "st\<lparr>visited := insert nodeId (visited st), markdown := markdown st @ [(level, n)]\<rparr>"
        let ?s1' = "st'\<lparr>visited := insert nodeId (visited st'), markdown := markdown st' @ [(level, n)]\<rparr>"
        have "same_outline ns ?s1 ?s1'"
          using R by (auto simp: same_outline_def)
        with "1.IH" [OF unv n, of ?s1']
        have "same_outline ns (forEachChild ns cs (children_of cs nodeId) (level + 1) ?s1)
                (forEachChild ns (keep_targets ns cs)
                   (children_of (keep_targets ns cs) nodeId) (level + 1) ?s1')"
          by (simp add: children_of_keep_targets) (simp add: children_of_def)
        with mem unv unv' n show ?thesis
          by (simp add: addNodeToMarkdown.simps children_of_def)
      qed
    qed
  qed
next
  case (2 ns cs level st)
  then show ?case by simp
next
  case (3 ns cs childId rest level st)
  show ?case
  proof (intro impI)
    assume R: "same_outline ns st st'"
    show "same_outline ns (forEachChild ns cs (childId # rest) level st)
       (forEachChild ns (keep_targets ns cs) (filter (\<lambda>i. i \<in> node_id ` set ns) (childId # rest)) level st')"
    proof (cases "childId \<in> node_id ` set ns")
      case True
      with "3.IH"(1) [of st'] R
      have "same_outline ns (addNodeToMarkdown ns cs childId level st)
              (addNodeToMarkdown ns (keep_targets ns cs) childId level st')"
        by simp
      with "3.IH"(2) True show ?thesis by simp
    next
      case False
      with "3.IH"(1) [of st'] R
      have "same_outline ns (addNodeToMarkdown ns cs childId level st) st'"
        by simp
      with "3.IH"(2) False show ?thesis by simp
    qed
  qed
qed


lemma rootNodes_keep_targets: "rootNodes ns (keep_targets ns cs) = rootNodes ns cs"
proof -
  have "node_id n \<in> hasIncoming (keep_targets ns cs) \<longleftrightarrow> node_id n \<in> hasIncoming cs"
    if "n \<in> set ns" for n
    using that unfolding hasIncoming_def keep_targets_def by force
  then show ?thesis
    unfolding rootNodes_def by (intro filter_cong) auto
qed

lemma same_outline_roots:
  "same_outline ns st st' \<Longrightarrow> set xs \<subseteq> set ns \<Longrightarrow>
     same_outline ns (fold (\<lambda>n st. addNodeToMarkdown ns cs (node_id n) 0 st) xs st)
       (fold (\<lambda>n st. addNodeToMarkdown ns (keep_targets ns cs) (node_id n) 0 st) xs st')"
proof (induction xs arbitrary: st st')
  case Nil
  then show ?case by simp
next
  case (Cons x xs)
  from Cons.prems have "node_id x \<in> node_id ` set ns" by auto
  with dangling_target_step(1) [of ns st st' "node_id x" cs 0] Cons.prems(1)
  have "same_outline ns (addNodeToMarkdown ns cs (node_id x) 0 st)
          (addNodeToMarkdown ns (keep_targets ns cs) (node_id x) 0 st')"
    by simp
  from Cons.IH [OF this] Cons.prems(2) show ?case by simp
qed

lemma same_outline_unvisited:
  "same_outline ns st st' \<Longrightarrow> set xs \<subseteq> set ns \<Longrightarrow>
     same_outline ns
       (fold (\<lambda>n st. if node_id n \<notin> visited st
                       then addNodeToMarkdown ns cs (node_id n) 0 st else st) xs st)
       (fold (\<lambda>n st. if node_id n \<notin> visited st
                       then addNodeToMarkdown ns (keep_targets ns cs) (node_id n) 0 st else st) xs st')"
proof (induction xs arbitrary: st st')
  case Nil
  then show ?case by simp
next
  case (Cons x xs)
  from Cons.prems have x: "node_id x \<in> node_id ` set ns" by auto
  with Cons.prems(1) have v: "node_id x \<in> visited st \<longleftrightarrow> node_id x \<in> visited st'"
    by (auto simp: same_outline_def)
  from x dangling_target_step(1) [of ns st st' "node_id x" cs 0] Cons.prems(1)
  have "same_outline ns (addNodeToMarkdown ns cs (node_id x) 0 st)
          (addNodeToMarkdown ns (keep_targets ns cs) (node_id x) 0 st')"
    by simp
  with v Cons.prems(1)
  have "same_outline ns
          (if node_id x \<notin> visited st then addNodeToMarkdown ns cs (node_id x) 0 st else st)
          (if node_id x \<notin> visited st'
           then addNodeToMarkdown ns (keep_targets ns cs) (node_id x) 0 st' else st')"
    by simp
  from Cons.IH [OF this] Cons.prems(2) show ?case by simp
qed

lemma dangling_target_excluded:
  "exportMarkdown_nodes ns (keep_targets ns cs) = exportMarkdown_nodes ns cs"
proof -
  have init: "same_outline ns initial_state initial_state"
    by (simp add: same_outline_def)
  let ?r = "rootNodes ns cs"
  have sub: "set ?r \<subseteq> set ns" by (auto simp: rootNodes_def)
  have st1: "same_outline ns
          (if length ?r > 0
           then fold (\<lambda>n st. addNodeToMarkdown ns cs (node_id n) 0 st) ?r initial_state
           else initial_state)
          (if length ?r > 0
           then fold (\<lambda>n st. addNodeToMarkdown ns (keep_targets ns cs) (node_id n) 0 st) ?r initial_state
           else initial_state)"
  proof (cases "length ?r > 0")
    case True
    then show ?thesis
      using same_outline_roots [OF init sub, of cs] by (simp only: if_True)
  next
    case False
    then show ?thesis
      using init by (simp only: if_False)
  qed
  have "same_outline ns (final_state ns cs) (final_state ns (keep_targets ns cs))"
    unfolding final_state_def rootNodes_keep_targets
    by (rule same_outline_unvisited [OF st1]) simp
  then show ?thesis
    by (simp add: exportMarkdown_nodes_final same_outline_def)
qed

text \<open>
  C8. The drawing and the "Connections" section skip a connection with a missing endpoint
  (lemmas \<open>renderConnections_filter\<close> and \<open>exportMarkdown_connections_filter\<close>), but the
  outline does not: the connection \<open>X \<rightarrow> A\<close>, whose source
  \<open>X\<close> is no node of the map, still puts \<open>A\<close> into \<open>hasIncoming\<close>. With it \<open>A\<close> is no root
  and is emitted by the final pass, after the root \<open>C\<close>; without it the outline starts with
  \<open>A\<close>. A connection with a missing target, \<open>A \<rightarrow> X\<close>, leaves the outline as it is.
\<close>

theorem dangling_source_changes_outline:
  "exportMarkdown_nodes [sample_node ''A'', sample_node ''B'', sample_node ''C'']
     [sample_connection ''X'' ''A'', sample_connection ''A'' ''B'']
     = [(0, sample_node ''C''), (0, sample_node ''A''), (1, sample_node ''B'')] \<and>
   exportMarkdown_nodes [sample_node ''A'', sample_node ''B'', sample_node ''C'']
     [sample_connection ''A'' ''B'']
     = [(0, sample_node ''A''), (1, sample_node ''B''), (0, sample_node ''C'')] \<and>
   exportMarkdown_nodes [sample_node ''A'', sample_node ''B'', sample_node ''C'']
     [sample_connection ''A'' ''X'', sample_connection ''A'' ''B'']
     = [(0, sample_node ''A''), (1, sample_node ''B''), (0, sample_node ''C'')] \<and>
   renderConnections [sample_node ''A'', sample_node ''B'', sample_node ''C'']
     [sample_connection ''X'' ''A'', sample_connection ''A'' ''B'']
     = [(''A-B'', sample_node ''A'', sample_node ''B'')] \<and>
   exportMarkdown_connections [sample_node ''A'', sample_node ''B'', sample_node ''C'']
     [sample_connection ''X'' ''A'', sample_connection ''A'' ''B'']
     = [(sample_node ''A'', sample_node ''B'')]"
  by (simp add: exportMarkdown_nodes_def rootNodes_def hasIncoming_def initial_state_def
        nodeMap_of_def connectionMap_of_def addNodeToMarkdown.simps
        renderConnections_def exportMarkdown_connections_def find_node_def
        sample_node_def sample_connection_def)

section \<open>Viewport round trip\<close>

text \<open>
  C2. For a zoom in \<open>[0.1, 3.0]\<close>, any pan offset and any logical point \<open>p\<close>, converting \<open>p\<close> to
  screen coordinates and back gives \<open>p\<close>. Numbers are exact reals here, so the equality is
  exact; the tolerance of the claim is what floating-point rounding adds.
\<close>

theorem toLogical_toScreen:
  assumes "0.1 \<le> zoomLevel s" and "zoomLevel s \<le> 3"
  shows "toLogical s (toScreen s p) = p"
  using assms by (simp add: toLogical_def toScreen_def)

theorem toLogical_toScreen_witness:
  "0.1 \<le> zoomLevel (initial_canvas\<lparr>panOffset := \<lparr>pt_x = 40, pt_y = -25\<rparr>, zoomLevel := 1.5\<rparr>) \<and>
   zoomLevel (initial_canvas\<lparr>panOffset := \<lparr>pt_x = 40, pt_y = -25\<rparr>, zoomLevel := 1.5\<rparr>) \<le> 3 \<and>
   toLogical (initial_canvas\<lparr>panOffset := \<lparr>pt_x = 40, pt_y = -25\<rparr>, zoomLevel := 1.5\<rparr>)
     (toScreen (initial_canvas\<lparr>panOffset := \<lparr>pt_x = 40, pt_y = -25\<rparr>, zoomLevel := 1.5\<rparr>)
        \<lparr>pt_x = 100, pt_y = 200\<rparr>) = \<lparr>pt_x = 100, pt_y = 200\<rparr>"
  using toLogical_toScreen [of "initial_canvas\<lparr>panOffset := \<lparr>pt_x = 40, pt_y = -25\<rparr>, zoomLevel := 1.5\<rparr>" "\<lparr>pt_x = 100, pt_y = 200\<rparr>"]
  by (simp add: initial_canvas_def)

lemma toScreen_example:
  "toScreen (initial_canvas\<lparr>panOffset := \<lparr>pt_x = 40, pt_y = -25\<rparr>, zoomLevel := 1.5\<rparr>)
        \<lparr>pt_x = 100, pt_y = 200\<rparr> = \<lparr>pt_x = 190, pt_y = 275\<rparr>"
  by (simp add: toScreen_def initial_canvas_def)

section \<open>Zoom stays in range\<close>

lemma newZoom_in_range: "0.1 \<le> newZoom zoom delta \<and> newZoom zoom delta \<le> 3"
  by (simp add: newZoom_def)

lemma zoom_step_in_range:
  "zoom_in_range s \<Longrightarrow> zoom_in_range (zoom_step op s)"
  by (cases op) (auto simp: zoom_in_range_def handleWheel_def handleZoomIn_def handleZoomOut_def newZoom_def)

lemma zoom_steps_in_range:
  "zoom_in_range s \<Longrightarrow> zoom_in_range (fold zoom_step ops s)"
  by (induction ops arbitrary: s) (simp_all add: zoom_step_in_range)

text \<open>
  C10. From a zoom in \<open>[0.1, 3.0]\<close>, any sequence of wheel ticks (of either sign) and uses of
  the zoom-in and zoom-out controls leaves the zoom in \<open>[0.1, 3.0]\<close>; the value the wheel
  handler computes is in that range for every factor.
\<close>

theorem zoom_stays_in_range:
  assumes "0.1 \<le> zoomLevel s" and "zoomLevel s \<le> 3"
  shows "0.1 \<le> zoomLevel (fold zoom_step ops s) \<and> zoomLevel (fold zoom_step ops s) \<le> 3 \<and>
         0.1 \<le> newZoom (zoomLevel s) delta \<and> newZoom (zoomLevel s) delta \<le> 3"
  using assms zoom_steps_in_range [of s ops] newZoom_in_range [of "zoomLevel s" delta]
  by (simp add: zoom_in_range_def)

theorem zoom_stays_in_range_witness:
  "0.1 \<le> zoomLevel (initial_canvas\<lparr>zoomLevel := 2.9\<rparr>) \<and>
   zoomLevel (initial_canvas\<lparr>zoomLevel := 2.9\<rparr>) \<le> 3 \<and>
   0.1 \<le> zoomLevel (fold zoom_step [Wheel (-120), ZoomIn, ZoomOut, Wheel 120]
                        (initial_canvas\<lparr>zoomLevel := 2.9\<rparr>)) \<and>
   zoomLevel (fold zoom_step [Wheel (-120), ZoomIn, ZoomOut, Wheel 120]
                (initial_canvas\<lparr>zoomLevel := 2.9\<rparr>)) \<le> 3 \<and>
   0.1 \<le> newZoom (zoomLevel (initial_canvas\<lparr>zoomLevel := 2.9\<rparr>)) 1000 \<and>
   newZoom (zoomLevel (initial_canvas\<lparr>zoomLevel := 2.9\<rparr>)) 1000 \<le> 3"
  using zoom_stays_in_range [of "initial_canvas\<lparr>zoomLevel := 2.9\<rparr>"
      "[Wheel (-120), ZoomIn, ZoomOut, Wheel 120]" 1000]
  by (simp add: initial_canvas_def)

lemma zoom_example: "zoomLevel (fold zoom_step [Wheel (-120), ZoomIn, ZoomOut, Wheel 120] (initial_canvas\<lparr>zoomLevel := 2.9\<rparr>)) = 2.25"
  by (simp add: initial_canvas_def handleWheel_def handleZoomIn_def handleZoomOut_def newZoom_def)

section \<open>Default placement of a new node\<close>

text \<open>
  C4. With a map of \<open>n\<close> nodes, a canvas rectangle and a zoom in \<open>[0.1, 3.0]\<close>, the add-node
  handler issues one create request. The new node is centred on the logical centre of the
  viewport (its corner is half its width left of and half its height above the centre),
  moved by \<open>(n mod 3) * 160 - 160\<close> horizontally and \<open>(n div 3) * 120 - 60\<close> vertically, and
  each coordinate is then raised to at least 20.
\<close>

theorem handleAddNode_placement:
  assumes "0.1 \<le> zoomLevel s" and "zoomLevel s \<le> 3"
  shows "\<exists>new.
           requests (handleAddNode (Some mp) (Some rc) s) = requests s @ [CreateNode new] \<and>
           new_x new = max 20 (pt_x (logicalCenter rc s) - real_of_int (new_width new) / 2
                                + (real (length (map_nodes mp) mod 3) * 160 - 160)) \<and>
           new_y new = max 20 (pt_y (logicalCenter rc s) - real_of_int (new_height new) / 2
                                + (real (length (map_nodes mp) div 3) * 120 - 60)) \<and>
           20 \<le> new_x new \<and> 20 \<le> new_y new"
  by (simp add: handleAddNode_def logicalCenter_def toLogical_def Let_def)

theorem handleAddNode_placement_witness:
  "0.1 \<le> zoomLevel initial_canvas \<and> zoomLevel initial_canvas \<le> 3 \<and>
   (\<exists>new.
      requests (handleAddNode (Some three_nodes) (Some \<lparr>rect_width = 800, rect_height = 600\<rparr>)
                  initial_canvas) = requests initial_canvas @ [CreateNode new] \<and>
      new_x new = 180 \<and> new_y new = 330 \<and> 20 \<le> new_x new \<and> 20 \<le> new_y new)"
  using handleAddNode_placement [of initial_canvas three_nodes "\<lparr>rect_width = 800, rect_height = 600\<rparr>"]
  by (simp add: initial_canvas_def three_nodes_def logicalCenter_def toLogical_def
        handleAddNode_def Let_def)

lemma fourth_node:
  "requests (handleAddNode (Some three_nodes) (Some \<lparr>rect_width = 800, rect_height = 600\<rparr>) initial_canvas)
   = [CreateNode \<lparr>new_mapId = ''m1'', new_text = ''New Node'', new_x = 180, new_y = 330,
                                  new_width = 120, new_height = 60, new_shape = ''rectangle'',
                                  new_color = ''#3b82f6'', new_textColor = ''#ffffff''\<rparr>]"
  by (simp add: handleAddNode_def three_nodes_def initial_canvas_def Let_def)

section \<open>Touch panning\<close>

lemma touch_session_never_pans:
  assumes "\<not> isPanning s"
  shows "\<not> isPanning (fold canvas_step (map PointerMove es) (canvas_step (PointerDown (touch_at x y)) s))"
proof -
  have idle: "\<not> isPanning c \<Longrightarrow> fold canvas_step (map PointerMove es) c = c" for c
    by (induction es) simp_all
  have "\<not> isPanning (canvas_step (PointerDown (touch_at x y)) s)"
    using assms by (simp add: handlePanStart_def touch_at_def)
  then show ?thesis by (simp add: idle)
qed

lemma handlePanMove_threshold:
  assumes "\<not> isPanning s" and "pointerType e = ''touch''"
  shows "isPanning (handlePanMove e s) \<longleftrightarrow> moveDistance e s > 10"
  using assms by (simp add: handlePanMove_def)

text \<open>
  C3. A touch pointer-down on the empty canvas at \<open>(100, 100)\<close> followed by a move to
  \<open>(111, 100)\<close>, 11 pixels away, leaves the session not panning: \<open>handlePanMove\<close> is attached
  to the document only while \<open>isPanning\<close> already holds, so the move never reaches it. The
  handler itself, applied to the same two events, would start panning at 11 pixels and not
  at 10.
\<close>

theorem touch_move_11px_not_panning:
  "isPanning (fold canvas_step [PointerDown (touch_at 100 100), PointerMove (touch_at 111 100)]
                initial_canvas) = False \<and>
   moveDistance (touch_at 111 100) (handlePanStart (touch_at 100 100) initial_canvas) = 11 \<and>
   isPanning (handlePanMove (touch_at 111 100) (handlePanStart (touch_at 100 100) initial_canvas)) = True \<and>
   moveDistance (touch_at 105 95) (handlePanStart (touch_at 100 100) initial_canvas) = 10 \<and>
   isPanning (handlePanMove (touch_at 105 95) (handlePanStart (touch_at 100 100) initial_canvas)) = False"
  by (simp add: handlePanStart_def handlePanMove_def moveDistance_def touch_at_def initial_canvas_def)

section \<open>Click on the empty canvas\<close>

lemma click_off_canvas_ignored: "canvas_step (Click False) s = s"
  by (simp add: handleCanvasClick_def)

lemma click_under_container:
  "nodesContainerCovers rc s q \<Longrightarrow> canvas_step (emptySurfaceClick m rc s q) s = s"
  by (simp add: emptySurfaceClick_def handleCanvasClick_def)




section \<open>One commit per drag\<close>

lemma moves_keep_dragging:
  "isDragging c \<Longrightarrow>
     isDragging (run_node n (map DocMove es) c) \<and>
     dragStart (run_node n (map DocMove es) c) = dragStart c \<and>
     calls (run_node n (map DocMove es) c) = calls c"
  unfolding run_node_def
  by (induction es arbitrary: c) (simp_all add: handlePointerMove_def)

lemma moves_call_nothing:
  "calls (run_node n (map DocMove es) c) = calls c"
  unfolding run_node_def
  by (induction es arbitrary: c) (simp_all add: handlePointerMove_def)

lemma run_node_append: "run_node n (xs @ ys) c = run_node n ys (run_node n xs c)"
  by (simp add: run_node_def)

lemma run_node_Cons: "run_node n (x # xs) c = run_node n xs (node_step n x c)"
  by (simp add: run_node_def)

lemma drag_session_calls:
  assumes "\<not> ctrlKey down" and "\<not> metaKey down"
  shows "calls (run_node n (drag_session down moves up) (mount n)) =
           [OnSelect False,
            OnMove (node_id n) (clientX up - (clientX down - node_x n))
                               (clientY up - (clientY down - node_y n))]"
    and "\<not> isDragging (run_node n (drag_session down moves up) (mount n))"
proof -
  let ?c1 = "node_step n (NodeDown down) (mount n)"
  let ?c2 = "run_node n (map DocMove moves) ?c1"
  have c1: "isDragging ?c1" "calls ?c1 = [OnSelect False]"
    "dragStart ?c1 = \<lparr>pt_x = clientX down - node_x n, pt_y = clientY down - node_y n\<rparr>"
    using assms by (simp_all add: handlePointerDown_def mount_def)
  from moves_keep_dragging [OF c1(1), of n moves] c1
  have c2: "isDragging ?c2" "calls ?c2 = [OnSelect False]"
    "dragStart ?c2 = \<lparr>pt_x = clientX down - node_x n, pt_y = clientY down - node_y n\<rparr>"
    by simp_all
  have run: "run_node n (drag_session down moves up) (mount n) = node_step n (DocUp up) ?c2"
    by (simp add: drag_session_def run_node_def)
  show "calls (run_node n (drag_session down moves up) (mount n)) =
           [OnSelect False,
            OnMove (node_id n) (clientX up - (clientX down - node_x n))
                               (clientY up - (clientY down - node_y n))]"
    unfolding run using c2 by (simp add: handlePointerUp_def)
  show "\<not> isDragging (run_node n (drag_session down moves up) (mount n))"
    unfolding run using c2 by (simp add: handlePointerUp_def)
qed

text \<open>
  What holds of every drag. A drag starts with a pointer-down on the node without Ctrl or
  Meta. A move event during the drag writes the pointer position minus \<open>dragStart\<close> as the
  visual position and changes nothing else. After the pointer-down and any moves the
  component has only reported the selection, and the canvas has sent no request; after the
  pointer-up the canvas has sent exactly one request, whose coordinates are the value
  \<open>handleNodeMove\<close> computes; moves and a pointer-up that come later add no call.
\<close>

lemma move_sets_visual:
  "isDragging c \<Longrightarrow>
     node_step n (DocMove e) c
       = c\<lparr>visual := \<lparr>pt_x = clientX e - pt_x (dragStart c),
                         pt_y = clientY e - pt_y (dragStart c)\<rparr>\<rparr>"
  by (simp add: handlePointerMove_def)

lemma drag_visual_follows_pointer:
  assumes "\<not> ctrlKey down" and "\<not> metaKey down"
  shows "visual (run_node n (NodeDown down # map DocMove moves @ [DocMove e]) (mount n))
           = \<lparr>pt_x = node_x n + (clientX e - clientX down),
              pt_y = node_y n + (clientY e - clientY down)\<rparr>"
proof -
  let ?c1 = "node_step n (NodeDown down) (mount n)"
  have c1: "isDragging ?c1"
    "dragStart ?c1 = \<lparr>pt_x = clientX down - node_x n, pt_y = clientY down - node_y n\<rparr>"
    using assms by (simp_all add: handlePointerDown_def mount_def)
  from moves_keep_dragging [OF c1(1), of n moves] c1
  have c2: "isDragging (run_node n (map DocMove moves) ?c1)"
    "dragStart (run_node n (map DocMove moves) ?c1)
       = \<lparr>pt_x = clientX down - node_x n, pt_y = clientY down - node_y n\<rparr>"
    by simp_all
  have "run_node n (NodeDown down # map DocMove moves @ [DocMove e]) (mount n)
          = node_step n (DocMove e) (run_node n (map DocMove moves) ?c1)"
    by (simp add: run_node_def)
  then show ?thesis
    using c2 by (simp add: handlePointerMove_def)
qed

lemma drag_session_requests:
  assumes "\<not> ctrlKey down" and "\<not> metaKey down"
  shows "calls (run_node n (NodeDown down # map DocMove moves) (mount n)) = [OnSelect False] \<and>
         requests (commit m n (calls (run_node n (NodeDown down # map DocMove moves) (mount n))) s)
           = requests s \<and>
         requests (commit m n (calls (run_node n (drag_session down moves up) (mount n))) s)
           = requests s @
             [UpdateNode (node_id n)
                (pt_x (toLogical s \<lparr>pt_x = clientX up - (clientX down - node_x n),
                                     pt_y = clientY up - (clientY down - node_y n)\<rparr>))
                (pt_y (toLogical s \<lparr>pt_x = clientX up - (clientX down - node_x n),
                                     pt_y = clientY up - (clientY down - node_y n)\<rparr>))] \<and>
         calls (run_node n (drag_session down moves up @ map DocMove later @ [DocUp up']) (mount n))
           = calls (run_node n (drag_session down moves up) (mount n))"
proof (intro conjI)
  show before: "calls (run_node n (NodeDown down # map DocMove moves) (mount n)) = [OnSelect False]"
    using assms
    by (simp add: run_node_Cons moves_call_nothing handlePointerDown_def mount_def)
  show "requests (commit m n (calls (run_node n (NodeDown down # map DocMove moves) (mount n))) s)
           = requests s"
    unfolding before
    by (simp add: commit_def handleNodeClick_def split: option.splits)
  show "requests (commit m n (calls (run_node n (drag_session down moves up) (mount n))) s)
           = requests s @
             [UpdateNode (node_id n)
                (pt_x (toLogical s \<lparr>pt_x = clientX up - (clientX down - node_x n),
                                     pt_y = clientY up - (clientY down - node_y n)\<rparr>))
                (pt_y (toLogical s \<lparr>pt_x = clientX up - (clientX down - node_x n),
                                     pt_y = clientY up - (clientY down - node_y n)\<rparr>))]"
    unfolding drag_session_calls(1) [OF assms]
    by (simp add: commit_def handleNodeClick_def handleNodeMove_def toLogical_def Let_def
          split: option.splits)
  let ?c = "run_node n (drag_session down moves up) (mount n)"
  have idle: "\<not> isDragging ?c"
    by (rule drag_session_calls(2) [OF assms])
  have "run_node n (map DocMove later) c' = c'" if "\<not> isDragging c'" for c'
    using that unfolding run_node_def by (induction later) simp_all
  with idle have "run_node n (map DocMove later @ [DocUp up']) ?c = ?c"
    by (simp add: run_node_append run_node_Cons) (simp add: run_node_def)
  then show "calls (run_node n (drag_session down moves up @ map DocMove later @ [DocUp up']) (mount n))
           = calls ?c"
    by (simp add: run_node_append)
qed


text \<open>
  C7. The commit does not carry the final position. At zoom 2 and pan (0, 0) the node \<open>A\<close>
  lies at (100, 100). It is pressed at (210, 210), moved to (230, 250) and released there.
  The move sends no request and writes (120, 140) as the visual position; the release sends
  exactly one request, but for the position (60, 70): \<open>handlePointerUp\<close> passes the value
  \<open>handlePointerMove\<close> wrote, and \<open>handleNodeMove\<close> converts it once more as if it were a
  screen position. Pressing and releasing at (210, 210) without any move commits (50, 50)
  for the node that never left (100, 100).
\<close>

theorem drag_commit_not_final_position:
  "visual (run_node dragged_node
             [NodeDown (mouse_at 210 210), DocMove (mouse_at 230 250)] (mount dragged_node))
     = \<lparr>pt_x = 120, pt_y = 140\<rparr> \<and>
   requests (commit (Some dragged_map) dragged_node
      (calls (run_node dragged_node
                [NodeDown (mouse_at 210 210), DocMove (mouse_at 230 250)] (mount dragged_node)))
      (initial_canvas\<lparr>zoomLevel := 2\<rparr>))
     = [] \<and>
   requests (commit (Some dragged_map) dragged_node
      (calls (run_node dragged_node
                (drag_session (mouse_at 210 210) [mouse_at 230 250] (mouse_at 230 250))
                (mount dragged_node)))
      (initial_canvas\<lparr>zoomLevel := 2\<rparr>))
     = [UpdateNode ''A'' 60 70] \<and>
   requests (commit (Some dragged_map) dragged_node
      (calls (run_node dragged_node
                (drag_session (mouse_at 210 210) [] (mouse_at 210 210))
                (mount dragged_node)))
      (initial_canvas\<lparr>zoomLevel := 2\<rparr>))
     = [UpdateNode ''A'' 50 50]"
  by (simp add: run_node_def drag_session_def commit_def mount_def mouse_at_def
        handlePointerDown_def handlePointerMove_def handlePointerUp_def
        handleNodeClick_def handleNodeMove_def toLogical_def
        dragged_node_def dragged_map_def sample_node_def initial_canvas_def)

section \<open>Deleting what is already deleted\<close>

text \<open>
  C5, as stated, fails: the first delete of node \<open>A\<close> answers 204, the second answers 404
  "Node not found", and \<open>deleteNode\<close> returns false; the same holds for a connection.
\<close>

theorem repeated_delete_not_found:
  "snd (delete_node_route True ''A'' sample_store) = SendStatus 204 \<and>
   snd (delete_node_route True ''A'' (fst (delete_node_route True ''A'' sample_store)))
     = Json 404 ''Node not found'' \<and>
   snd (deleteNode ''A'' (fst (deleteNode ''A'' sample_store))) = False \<and>
   snd (delete_connection_route True ''A-B'' sample_store) = SendStatus 204 \<and>
   snd (delete_connection_route True ''A-B'' (fst (delete_connection_route True ''A-B'' sample_store)))
     = Json 404 ''Connection not found''"
  by (simp add: delete_node_route_def deleteNode_def delete_connection_route_def deleteConnection_def
        sample_store_def sample_node_def sample_connection_def)

lemma filter_all: "\<forall>x \<in> set xs. P x \<Longrightarrow> filter P xs = xs"
  by (induction xs) auto

text \<open>
  C5, amended. Deleting a node id that no row of the \<open>nodes\<close> table has, or a connection id
  that no row of the \<open>connections\<close> table has, leaves both tables as they are and raises no
  exception, but it is reported as unsuccessful: the storage method returns false and the
  route answers 404.
\<close>

theorem delete_absent_id:
  assumes "i \<notin> node_id ` set (nodes_table db)"
    and "j \<notin> conn_id ` set (connections_table db)"
  shows "deleteNode i db = (db, False) \<and>
         delete_node_route True i db = (db, Json 404 ''Node not found'') \<and>
         deleteConnection j db = (db, False) \<and>
         delete_connection_route True j db = (db, Json 404 ''Connection not found'')"
proof -
  have n: "filter (\<lambda>n. node_id n = i) (nodes_table db) = []"
          "filter (\<lambda>n. node_id n \<noteq> i) (nodes_table db) = nodes_table db"
    using assms(1) by (auto simp: filter_empty_conv intro: filter_all)
  have c: "filter (\<lambda>c. conn_id c = j) (connections_table db) = []"
          "filter (\<lambda>c. conn_id c \<noteq> j) (connections_table db) = connections_table db"
    using assms(2) by (auto simp: filter_empty_conv intro: filter_all)
  show ?thesis
    by (simp add: deleteNode_def delete_node_route_def deleteConnection_def
          delete_connection_route_def n c Let_def)
qed

theorem delete_absent_id_witness:
  "''A'' \<notin> node_id ` set (nodes_table (fst (deleteNode ''A'' sample_store))) \<and>
   ''A-B'' \<notin> conn_id ` set (connections_table (fst (deleteNode ''A'' sample_store))) \<and>
   deleteNode ''A'' (fst (deleteNode ''A'' sample_store))
     = (fst (deleteNode ''A'' sample_store), False) \<and>
   delete_node_route True ''A'' (fst (deleteNode ''A'' sample_store))
     = (fst (deleteNode ''A'' sample_store), Json 404 ''Node not found'') \<and>
   deleteConnection ''A-B'' (fst (deleteNode ''A'' sample_store))
     = (fst (deleteNode ''A'' sample_store), False) \<and>
   delete_connection_route True ''A-B'' (fst (deleteNode ''A'' sample_store))
     = (fst (deleteNode ''A'' sample_store), Json 404 ''Connection not found'')"
proof -
  have h: "''A'' \<notin> node_id ` set (nodes_table (fst (deleteNode ''A'' sample_store)))"
    "''A-B'' \<notin> conn_id ` set (connections_table (fst (deleteNode ''A'' sample_store)))"
    by (simp_all add: deleteNode_def sample_store_def sample_node_def sample_connection_def)
  from delete_absent_id [OF h] h show ?thesis
    by simp
qed

end
